theory Spec2Isabelle
  imports Complex_Main
begin

section \<open>Python values and the operations the client applies to them\<close>

text \<open>
  The client handles whatever the JSON parser returns, so the model keeps the values
  dynamically typed. A JSON object is an association list in which the first binding of a
  key is the one that counts. A number is an int, of any size, or a float. A float is
  finite, an infinity or not a number: the parser reads \<open>Infinity\<close>, \<open>-Infinity\<close> and
  \<open>NaN\<close>, and a literal beyond the range of the floats becomes an infinity. A finite
  float stands for the real number it approximates: the rounding of floating point
  arithmetic is outside the model, its overflow is not. Strings are strings of 8-bit
  characters.
\<close>

datatype pyfloat = Finite real | PosInf | NegInf | NaN

datatype pyval =
    PNone
  | PBool bool
  | PInt int
  | PFloat pyfloat
  | PStr string
  | PList "pyval list"
  | PDict "(string \<times> pyval) list"

datatype error =
    KeyError | TypeError | AttributeError | ValueError | RecursionError | OverflowError
  | ZeroDivisionError

text \<open>\<open>d[k]\<close>: only a dict can be indexed by a string; a missing key raises.\<close>

fun py_subscript :: "pyval \<Rightarrow> string \<Rightarrow> error + pyval" where
  "py_subscript (PDict kvs) k = (case map_of kvs k of None \<Rightarrow> Inl KeyError | Some v \<Rightarrow> Inr v)"
| "py_subscript PNone k = Inl TypeError"
| "py_subscript (PBool b) k = Inl TypeError"
| "py_subscript (PInt n) k = Inl TypeError"
| "py_subscript (PFloat f) k = Inl TypeError"
| "py_subscript (PStr s) k = Inl TypeError"
| "py_subscript (PList xs) k = Inl TypeError"

text \<open>\<open>d.get(k, default)\<close>: only a dict has the method.\<close>

fun py_get :: "pyval \<Rightarrow> string \<Rightarrow> pyval \<Rightarrow> error + pyval" where
  "py_get (PDict kvs) k d = Inr (case map_of kvs k of None \<Rightarrow> d | Some v \<Rightarrow> v)"
| "py_get PNone k d = Inl AttributeError"
| "py_get (PBool b) k d = Inl AttributeError"
| "py_get (PInt n) k d = Inl AttributeError"
| "py_get (PFloat f) k d = Inl AttributeError"
| "py_get (PStr s) k d = Inl AttributeError"
| "py_get (PList xs) k d = Inl AttributeError"

text \<open>Truth value of an object, as \<open>if items:\<close> tests it.\<close>

fun py_truthy :: "pyval \<Rightarrow> bool" where
  "py_truthy PNone = False"
| "py_truthy (PBool b) = b"
| "py_truthy (PInt n) = (n \<noteq> 0)"
| "py_truthy (PFloat f) = (f \<noteq> Finite 0)"
| "py_truthy (PStr s) = (s \<noteq> [])"
| "py_truthy (PList xs) = (xs \<noteq> [])"
| "py_truthy (PDict kvs) = (kvs \<noteq> [])"

text \<open>\<open>acc.extend(v)\<close>: iterates over a list, the characters of a string or the keys of
  a dict; anything else is not iterable.\<close>

fun py_extend :: "pyval list \<Rightarrow> pyval \<Rightarrow> error + pyval list" where
  "py_extend acc (PList xs) = Inr (acc @ xs)"
| "py_extend acc (PStr s) = Inr (acc @ map (\<lambda>c. PStr [c]) s)"
| "py_extend acc (PDict kvs) = Inr (acc @ map (\<lambda>kv. PStr (fst kv)) kvs)"
| "py_extend acc PNone = Inl TypeError"
| "py_extend acc (PBool b) = Inl TypeError"
| "py_extend acc (PInt n) = Inl TypeError"
| "py_extend acc (PFloat f) = Inl TypeError"

text \<open>
  \<open>n <= v\<close> for an int \<open>n\<close>: defined against numbers (a bool counts as 0 or 1). An int
  and a float are compared by their values; nothing is below or equal to NaN.
\<close>

fun int_le_float :: "int \<Rightarrow> pyfloat \<Rightarrow> bool" where
  "int_le_float n (Finite r) = (real_of_int n \<le> r)"
| "int_le_float n PosInf = True"
| "int_le_float n NegInf = False"
| "int_le_float n NaN = False"

fun py_int_le :: "int \<Rightarrow> pyval \<Rightarrow> error + bool" where
  "py_int_le n (PInt m) = Inr (n \<le> m)"
| "py_int_le n (PFloat f) = Inr (int_le_float n f)"
| "py_int_le n (PBool b) = Inr (n \<le> (if b then 1 else 0))"
| "py_int_le n PNone = Inl TypeError"
| "py_int_le n (PStr s) = Inl TypeError"
| "py_int_le n (PList xs) = Inl TypeError"
| "py_int_le n (PDict kvs) = Inl TypeError"

text \<open>
  Arithmetic. The sum of ints is an int and cannot overflow. Where an int meets a float
  the int is converted, which raises \<open>OverflowError\<close> for an int that rounds to a
  magnitude of \<open>2 ^ 1024\<close> or more; the same limit applies to the quotient of two ints.
  The sum of two floats does not raise: beyond the limit it is an infinity.
\<close>

datatype number = IntNum int | FloatNum pyfloat

definition float_limit :: real where
  "float_limit = 2 ^ 1024 - 2 ^ 970"

definition to_float :: "real \<Rightarrow> error + pyfloat" where
  "to_float x = (if \<bar>x\<bar> < float_limit then Inr (Finite x) else Inl OverflowError)"

fun float_add :: "pyfloat \<Rightarrow> pyfloat \<Rightarrow> pyfloat" where
  "float_add (Finite a) (Finite b) =
     (if \<bar>a + b\<bar> < float_limit then Finite (a + b) else if 0 < a + b then PosInf else NegInf)"
| "float_add NaN g = NaN"
| "float_add f NaN = NaN"
| "float_add PosInf NegInf = NaN"
| "float_add NegInf PosInf = NaN"
| "float_add PosInf g = PosInf"
| "float_add f PosInf = PosInf"
| "float_add NegInf g = NegInf"
| "float_add f NegInf = NegInf"

text \<open>The right operand of \<open>number + v\<close>.\<close>

fun py_addend :: "pyval \<Rightarrow> error + number" where
  "py_addend (PInt n) = Inr (IntNum n)"
| "py_addend (PFloat f) = Inr (FloatNum f)"
| "py_addend (PBool b) = Inr (IntNum (if b then 1 else 0))"
| "py_addend PNone = Inl TypeError"
| "py_addend (PStr s) = Inl TypeError"
| "py_addend (PList xs) = Inl TypeError"
| "py_addend (PDict kvs) = Inl TypeError"

text \<open>\<open>x + y\<close> for two numbers.\<close>

fun py_add :: "number \<Rightarrow> number \<Rightarrow> error + number" where
  "py_add (IntNum a) (IntNum b) = Inr (IntNum (a + b))"
| "py_add (IntNum a) (FloatNum g) =
     (case to_float (real_of_int a) of
        Inl x \<Rightarrow> Inl x
      | Inr f \<Rightarrow> Inr (FloatNum (float_add f g)))"
| "py_add (FloatNum f) (IntNum b) =
     (case to_float (real_of_int b) of
        Inl x \<Rightarrow> Inl x
      | Inr g \<Rightarrow> Inr (FloatNum (float_add f g)))"
| "py_add (FloatNum f) (FloatNum g) = Inr (FloatNum (float_add f g))"

text \<open>\<open>x / n\<close> for a number \<open>x\<close> and a length \<open>n\<close>: a float.\<close>

fun float_div :: "pyfloat \<Rightarrow> real \<Rightarrow> pyfloat" where
  "float_div (Finite a) d = Finite (a / d)"
| "float_div f d = f"

definition py_truediv :: "number \<Rightarrow> nat \<Rightarrow> error + pyfloat" where
  "py_truediv x n =
     (if n = 0 then Inl ZeroDivisionError
      else (case x of
              IntNum a \<Rightarrow> to_float (real_of_int a / real n)
            | FloatNum f \<Rightarrow> Inr (float_div f (real n))))"

section \<open>The outside world\<close>

text \<open>
  What one HTTP exchange can give back: \<open>requests.post\<close> raises a
  \<open>RequestException\<close>, or it returns a response with a status code and a body. Of the
  body it matters what \<open>response.json()\<close> does with it. On a body that is not JSON it
  raises the \<open>JSONDecodeError\<close> of requests, a \<open>RequestException\<close>. On some bodies the
  parser raises something else, which requests lets through: a \<open>ValueError\<close> for an
  integer literal of more digits than the interpreter converts, a \<open>RecursionError\<close> for
  a nesting too deep. Otherwise it returns the value.
\<close>

datatype body = NotJson | Unparsed error | Json pyval

datatype http_outcome = RequestFailed | Response nat body

text \<open>
  The environment answers the n-th authentication exchange, the n-th page request and the
  n-th reading of the clock of a run. The client is deterministic, so these three
  sequences fix a run.
\<close>

record env =
  auth_resp :: "nat \<Rightarrow> http_outcome"
  page_resp :: "nat \<Rightarrow> http_outcome"
  clock :: "nat \<Rightarrow> real"

datatype page_request =
  PageRequest (pr_url: pyval) (pr_token: pyval) (pr_req_id: pyval) (pr_page: int)

section \<open>The client\<close>

text \<open>
  The fields of \<open>HomeworkClient\<close>, followed by the trace of its exchanges with the
  world: how many authentication exchanges and clock readings it has made, the page
  requests it has issued (one entry per attempt) and how often \<open>get_page\<close> was entered.
\<close>

record client =
  token :: pyval
  token_time :: real
  city :: pyval
  req_id :: pyval
  url :: pyval
  all_items :: "pyval list"
  auth_calls :: nat
  clock_reads :: nat
  page_requests :: "page_request list"
  get_page_calls :: nat

definition MAX_ERROR :: int where
  "MAX_ERROR = 5"

definition TOKEN_TIMEOUT :: real where
  "TOKEN_TIMEOUT = 55"

text \<open>\<open>__init__\<close>.\<close>

definition init :: client where
  "init = \<lparr>token = PNone, token_time = 0, city = PNone, req_id = PNone, url = PNone,
           all_items = [], auth_calls = 0, clock_reads = 0, page_requests = [],
           get_page_calls = 0\<rparr>"

text \<open>
  An exception that nothing catches ends the run; the result keeps the state the object
  was in when it was raised.
\<close>

type_synonym 'a result = "(error \<times> client) + 'a"

text \<open>
  \<open>get_token\<close>. The four fields are assigned one after the other, each from a subscript
  that can raise; only a \<open>RequestException\<close> is caught. Since requests 2.27 the
  exception of \<open>response.json()\<close> on a body that is not JSON is a \<open>RequestException\<close>
  too. There is no \<open>raise_for_status\<close> here: the status code is not looked at.
\<close>

definition get_token :: "env \<Rightarrow> client \<Rightarrow> client result" where
  "get_token e s =
     (let s0 = s\<lparr>auth_calls := Suc (auth_calls s)\<rparr> in
      case auth_resp e (auth_calls s) of
        RequestFailed \<Rightarrow> Inr (s0\<lparr>token := PNone\<rparr>)
      | Response status NotJson \<Rightarrow> Inr (s0\<lparr>token := PNone\<rparr>)
      | Response status (Unparsed x) \<Rightarrow> Inl (x, s0)
      | Response status (Json auth_info) \<Rightarrow>
          (case py_subscript auth_info ''token'' of
             Inl x \<Rightarrow> Inl (x, s0)
           | Inr t \<Rightarrow>
               let s1 = s0\<lparr>token := t, token_time := clock e (clock_reads s0),
                          clock_reads := Suc (clock_reads s0)\<rparr> in
               (case py_subscript auth_info ''dataset'' of
                  Inl x \<Rightarrow> Inl (x, s1)
                | Inr c \<Rightarrow>
                    let s2 = s1\<lparr>city := c\<rparr> in
                    (case py_subscript auth_info ''request_id'' of
                       Inl x \<Rightarrow> Inl (x, s2)
                     | Inr r \<Rightarrow>
                         let s3 = s2\<lparr>req_id := r\<rparr> in
                         (case py_subscript auth_info ''data_url'' of
                            Inl x \<Rightarrow> Inl (x, s3)
                          | Inr u \<Rightarrow> Inr (s3\<lparr>url := u\<rparr>))))))"

text \<open>\<open>validate_token\<close>. The clock is read only when there is a token (\<open>or\<close> is lazy).\<close>

definition validate_token :: "env \<Rightarrow> client \<Rightarrow> client result" where
  "validate_token e s =
     (if token s = PNone then get_token e s
      else
        let now = clock e (clock_reads s);
            s1 = s\<lparr>clock_reads := Suc (clock_reads s)\<rparr> in
        if now - token_time s1 \<ge> TOKEN_TIMEOUT then get_token e s1 else Inr s1)"

text \<open>
  The \<open>requests.post\<close> to \<open>self.url\<close> that is the n-th page request of the run. A URL
  that is not a string (\<open>None\<close> before the first successful authentication) makes
  requests raise \<open>MissingSchema\<close>, a \<open>RequestException\<close>, before anything is sent;
  otherwise the environment answers.
\<close>

definition post_page :: "env \<Rightarrow> pyval \<Rightarrow> nat \<Rightarrow> http_outcome" where
  "post_page e u n = (case u of PStr a \<Rightarrow> page_resp e n | _ \<Rightarrow> RequestFailed)"

text \<open>
  The body of the \<open>try\<close> block up to the \<open>return\<close>: \<open>requests.post\<close>,
  \<open>raise_for_status\<close> (which raises for the status codes 400 to 599) and
  \<open>response.json()\<close>. A \<open>RequestException\<close> raised by one of the three is caught by
  the \<open>except\<close> clause; what else \<open>response.json()\<close> raises is not.
\<close>

datatype tried = Caught | Raised error | Parsed pyval

definition try_request :: "http_outcome \<Rightarrow> tried" where
  "try_request out =
     (case out of
        RequestFailed \<Rightarrow> Caught
      | Response status b \<Rightarrow>
          if 400 \<le> status \<and> status < 600 then Caught
          else (case b of
                  NotJson \<Rightarrow> Caught
                | Unparsed x \<Rightarrow> Raised x
                | Json data \<Rightarrow> Parsed data))"

text \<open>
  The value of the \<open>return\<close> statement in the \<open>try\<close> block: the pair of
  \<open>data.get('items', [])\<close> and \<open>data.get('total_pages', 1)\<close>. What these raise is no
  \<open>RequestException\<close>, so the \<open>except\<close> clause lets it through.
\<close>

definition page_tuple :: "pyval \<Rightarrow> error + (pyval \<times> pyval)" where
  "page_tuple data =
     (case py_get data ''items'' (PList []) of
        Inl x \<Rightarrow> Inl x
      | Inr items \<Rightarrow>
          (case py_get data ''total_pages'' (PInt 1) of
             Inl x \<Rightarrow> Inl x
           | Inr tp \<Rightarrow> Inr (items, tp)))"

text \<open>
  The retry loop of \<open>get_page\<close>, from attempt number \<open>attempt\<close> on. \<open>None\<close> is what
  the method returns when the loop ends without a \<open>return\<close>.
\<close>

function attempts ::
  "env \<Rightarrow> page_request \<Rightarrow> nat \<Rightarrow> nat \<Rightarrow> client \<Rightarrow> ((pyval \<times> pyval) option \<times> client) result"
where
  "attempts e rq max_retries attempt s =
     (if attempt \<le> max_retries then
        let s1 = s\<lparr>page_requests := page_requests s @ [rq]\<rparr> in
        (case try_request (post_page e (url s) (length (page_requests s))) of
           Parsed data \<Rightarrow>
             (case page_tuple data of
                Inl x \<Rightarrow> Inl (x, s1)
              | Inr ret \<Rightarrow> Inr (Some ret, s1))
         | Raised x \<Rightarrow> Inl (x, s1)
         | Caught \<Rightarrow>
             if attempt < max_retries then attempts e rq max_retries (Suc attempt) s1
             else Inr (Some (PList [], PInt 1), s1))
      else Inr (None, s))"
  by pat_completeness auto
termination
  by (relation "measure (\<lambda>(e, rq, max_retries, attempt, s). Suc max_retries - attempt)") auto

declare attempts.simps [simp del]

text \<open>\<open>get_page\<close>: the parameters and the header are built once, after the token check.\<close>

definition get_page ::
  "env \<Rightarrow> int \<Rightarrow> nat \<Rightarrow> client \<Rightarrow> ((pyval \<times> pyval) option \<times> client) result"
where
  "get_page e page_number max_retries s =
     (case validate_token e (s\<lparr>get_page_calls := Suc (get_page_calls s)\<rparr>) of
        Inl x \<Rightarrow> Inl x
      | Inr s1 \<Rightarrow>
          attempts e (PageRequest (url s1) (token s1) (req_id s1) page_number)
            max_retries 1 s1)"

section \<open>The run\<close>

text \<open>The object together with the local variables of \<open>run\<close>.\<close>

record run_state =
  client :: client
  current_page :: int
  total_pages :: pyval
  error_counter :: int

text \<open>
  One pass through the body of the \<open>while\<close> loop, up to the test of the error counter.
  Unpacking \<open>None\<close> into two names is a \<open>TypeError\<close>.
\<close>

definition loop_body :: "env \<Rightarrow> run_state \<Rightarrow> (error \<times> run_state) + run_state" where
  "loop_body e r =
     (case get_page e (current_page r) 3 (client r) of
        Inl (x, c) \<Rightarrow> Inl (x, r\<lparr>client := c\<rparr>)
      | Inr (None, c) \<Rightarrow> Inl (TypeError, r\<lparr>client := c\<rparr>)
      | Inr (Some (items, tp), c) \<Rightarrow>
          let r1 = r\<lparr>client := c, total_pages := tp\<rparr> in
          if py_truthy items then
            (case py_extend (all_items c) items of
               Inl x \<Rightarrow> Inl (x, r1)
             | Inr xs \<Rightarrow>
                 Inr (r1\<lparr>client := c\<lparr>all_items := xs\<rparr>,
                         current_page := current_page r1 + 1,
                         error_counter := 0\<rparr>))
          else
            Inr (r1\<lparr>error_counter := error_counter r1 + 1,
                    current_page := current_page r1 + 1\<rparr>))"

text \<open>
  The \<open>while\<close> loop. Nothing in the code bounds the number of passes, so the loop is a
  partial function: \<open>None\<close> stands for a loop that never ends.
\<close>

partial_function (option) pagination ::
  "env \<Rightarrow> run_state \<Rightarrow> ((error \<times> run_state) + run_state) option"
where
  "pagination e r =
     (case py_int_le (current_page r) (total_pages r) of
        Inl x \<Rightarrow> Some (Inl (x, r))
      | Inr go \<Rightarrow>
          if go then
            (case loop_body e r of
               Inl x \<Rightarrow> Some (Inl x)
             | Inr r1 \<Rightarrow>
                 if error_counter r1 \<ge> MAX_ERROR then Some (Inr r1)
                 else pagination e r1)
          else Some (Inr r))"

text \<open>
  The sum of the generator \<open>item['temperature_noon_c'] for item in self.all_items\<close>,
  from the left, starting with the accumulator (\<open>sum\<close> starts with the int 0).
\<close>

fun sum_temps :: "number \<Rightarrow> pyval list \<Rightarrow> error + number" where
  "sum_temps acc [] = Inr acc"
| "sum_temps acc (item # rest) =
     (case py_subscript item ''temperature_noon_c'' of
        Inl x \<Rightarrow> Inl x
      | Inr v \<Rightarrow>
          (case py_addend v of
             Inl x \<Rightarrow> Inl x
           | Inr t \<Rightarrow>
               (case py_add acc t of
                  Inl x \<Rightarrow> Inl x
                | Inr acc' \<Rightarrow> sum_temps acc' rest)))"

text \<open>
  What \<open>run\<close> gives its last two \<open>print\<close> statements: the city, with the average or
  without data. The output itself is not part of the model.
\<close>

datatype report = Report pyval pyfloat | NoData pyval

definition aggregate :: "run_state \<Rightarrow> (error \<times> run_state) + (report \<times> run_state)" where
  "aggregate r =
     (if all_items (client r) \<noteq> [] then
        (case sum_temps (IntNum 0) (all_items (client r)) of
           Inl x \<Rightarrow> Inl (x, r)
         | Inr temps \<Rightarrow>
             (case py_truediv temps (length (all_items (client r))) of
                Inl x \<Rightarrow> Inl (x, r)
              | Inr average \<Rightarrow> Inr (Report (city (client r)) average, r)))
      else Inr (NoData (city (client r)), r))"

definition run :: "env \<Rightarrow> client \<Rightarrow> ((error \<times> run_state) + (report \<times> run_state)) option" where
  "run e s =
     (let r0 = \<lparr>client = s, current_page = 1, total_pages = PInt 1, error_counter = 0\<rparr> in
      case get_token e s of
        Inl (x, c) \<Rightarrow> Some (Inl (x, r0\<lparr>client := c\<rparr>))
      | Inr c \<Rightarrow>
          (case pagination e (r0\<lparr>client := c\<rparr>) of
             None \<Rightarrow> None
           | Some (Inl x) \<Rightarrow> Some (Inl x)
           | Some (Inr r) \<Rightarrow> Some (aggregate r)))"

text \<open>The program: a new client, then \<open>run\<close>.\<close>

definition main :: "env \<Rightarrow> ((error \<times> run_state) + (report \<times> run_state)) option" where
  "main e = run e init"

section \<open>Responses and environments to run the client on\<close>

text \<open>A sequence of answers given by a list, with one answer for everything after it.\<close>

definition scripted :: "'a list \<Rightarrow> 'a \<Rightarrow> nat \<Rightarrow> 'a" where
  "scripted xs d n = (if n < length xs then xs ! n else d)"

text \<open>The JSON bodies the service documents: the authentication answer, a page, one record.\<close>

definition auth_json :: "pyval \<Rightarrow> pyval \<Rightarrow> pyval \<Rightarrow> pyval \<Rightarrow> pyval" where
  "auth_json t c r u =
     PDict [(''token'', t), (''dataset'', c), (''request_id'', r), (''data_url'', u)]"

definition page_json :: "pyval list \<Rightarrow> int \<Rightarrow> pyval" where
  "page_json items tp = PDict [(''items'', PList items), (''total_pages'', PInt tp)]"

definition reading :: "int \<Rightarrow> pyval" where
  "reading t = PDict [(''temperature_noon_c'', PInt t)]"

text \<open>
  A service that answers every authentication with the same body and the page requests
  from a list (no answer once the list is used up), with a clock that stands still.
\<close>

definition serve :: "pyval \<Rightarrow> http_outcome list \<Rightarrow> env" where
  "serve auth_info pages =
     \<lparr>auth_resp = (\<lambda>n. Response 200 (Json auth_info)),
      page_resp = scripted pages RequestFailed,
      clock = (\<lambda>n. 0)\<rparr>"

text \<open>A network on which nothing gets through.\<close>

definition env_down :: env where
  "env_down =
     \<lparr>auth_resp = (\<lambda>n. RequestFailed), page_resp = (\<lambda>n. RequestFailed), clock = (\<lambda>n. 0)\<rparr>"

text \<open>
  The outcomes of the authentication exchange that raise a \<open>RequestException\<close> inside
  the \<open>try\<close> block of \<open>get_token\<close>.
\<close>

definition request_exception :: "http_outcome \<Rightarrow> bool" where
  "request_exception out =
     (case out of
        RequestFailed \<Rightarrow> True
      | Response status NotJson \<Rightarrow> True
      | Response status (Unparsed x) \<Rightarrow> False
      | Response status (Json j) \<Rightarrow> False)"

text \<open>What a run shows to the outside: the exception that ended it, or its report.\<close>

definition outcome ::
  "((error \<times> run_state) + (report \<times> run_state)) option \<Rightarrow> (error + report) option"
where
  "outcome res = map_option (map_sum fst fst) res"

definition final_state ::
  "((error \<times> run_state) + (report \<times> run_state)) option \<Rightarrow> run_state option"
where
  "final_state res = map_option (\<lambda>x. case x of Inl (err, r) \<Rightarrow> r | Inr (rep, r) \<Rightarrow> r) res"

text \<open>The object as a call of \<open>get_page\<close> leaves it, whether it returned or raised.\<close>

definition client_after :: "('a \<times> client) result \<Rightarrow> client" where
  "client_after res = (case res of Inl (x, c) \<Rightarrow> c | Inr (v, c) \<Rightarrow> c)"

text \<open>The object as \<open>get_token\<close> or \<open>validate_token\<close> leaves it.\<close>

definition state_after :: "client result \<Rightarrow> client" where
  "state_after res = (case res of Inl (x, c) \<Rightarrow> c | Inr c \<Rightarrow> c)"

text \<open>The three attempts that \<open>get_page\<close> makes from this state are all caught.\<close>

definition page_fails :: "env \<Rightarrow> client \<Rightarrow> bool" where
  "page_fails e s =
     (try_request (post_page e (url s) (length (page_requests s))) = Caught \<and>
      try_request (post_page e (url s) (Suc (length (page_requests s)))) = Caught \<and>
      try_request (post_page e (url s) (Suc (Suc (length (page_requests s))))) = Caught)"


text \<open>The round trip of the specification: two pages, the first without a page count.\<close>

definition haifa :: pyval where
  "haifa = auth_json (PStr ''tok'') (PStr ''Haifa'') (PStr ''r1'') (PStr ''https://data'')"

definition env_round_trip :: env where
  "env_round_trip =
     serve haifa
       [Response 200 (Json (PDict [(''items'', PList [reading 10])])),
        Response 200 (Json (page_json [reading 20] 2))]"

text \<open>Three pages of which the second one fails on all its attempts.\<close>

definition env_page2_fails :: env where
  "env_page2_fails =
     serve haifa
       [Response 200 (Json (page_json [reading 10] 3)),
        RequestFailed, RequestFailed, RequestFailed,
        Response 200 (Json (page_json [reading 30] 3))]"

text \<open>The state in which the loop ended, by its condition, by \<open>break\<close> or by an exception.\<close>

definition loop_end :: "(error \<times> run_state) + run_state \<Rightarrow> run_state" where
  "loop_end res = (case res of Inl (x, r) \<Rightarrow> r | Inr r \<Rightarrow> r)"

text \<open>A page count that is a number not above \<open>B\<close>.\<close>

fun at_most :: "nat \<Rightarrow> pyval \<Rightarrow> bool" where
  "at_most B (PInt t) = (t \<le> int B)"
| "at_most B (PFloat (Finite t)) = (t \<le> real B)"
| "at_most B (PFloat NegInf) = True"
| "at_most B v = False"

text \<open>
  A page answer that, where \<open>get_page\<close> returns its pair, has such a page count.
\<close>

definition total_pages_at_most :: "nat \<Rightarrow> http_outcome \<Rightarrow> bool" where
  "total_pages_at_most B out =
     (case try_request out of
        Caught \<Rightarrow> True
      | Raised x \<Rightarrow> True
      | Parsed d \<Rightarrow> (case page_tuple d of Inl x \<Rightarrow> True | Inr ret \<Rightarrow> at_most B (snd ret)))"

fun is_list :: "pyval \<Rightarrow> bool" where
  "is_list (PList xs) = True"
| "is_list v = False"

text \<open>
  Answers of the documented shape, or none at all: a page answer is caught by the retry
  loop or is a JSON object whose items, if it has any, are a list and whose page count,
  if it has one, is a number not above \<open>B\<close>; an authentication answer is caught or is
  a JSON object with the four fields. A body on which \<open>response.json()\<close> raises anything
  but its \<open>JSONDecodeError\<close> is not of that shape.
\<close>

definition page_ok :: "nat \<Rightarrow> http_outcome \<Rightarrow> bool" where
  "page_ok B out =
     (case try_request out of
        Caught \<Rightarrow> True
      | Raised x \<Rightarrow> False
      | Parsed d \<Rightarrow>
          (case page_tuple d of
             Inl x \<Rightarrow> False
           | Inr ret \<Rightarrow> is_list (fst ret) \<and> at_most B (snd ret)))"

definition has_key :: "pyval \<Rightarrow> string \<Rightarrow> bool" where
  "has_key j k = (case py_subscript j k of Inl x \<Rightarrow> False | Inr v \<Rightarrow> True)"

definition auth_ok :: "http_outcome \<Rightarrow> bool" where
  "auth_ok out =
     (case out of
        RequestFailed \<Rightarrow> True
      | Response status b \<Rightarrow>
          (case b of
             NotJson \<Rightarrow> True
           | Unparsed x \<Rightarrow> False
           | Json j \<Rightarrow>
               has_key j ''token'' \<and> has_key j ''dataset'' \<and> has_key j ''request_id'' \<and>
               has_key j ''data_url''))"

definition well_formed :: "nat \<Rightarrow> env \<Rightarrow> bool" where
  "well_formed B e = ((\<forall>n. auth_ok (auth_resp e n)) \<and> (\<forall>n. page_ok B (page_resp e n)))"











text \<open>
  The object after a first authentication at time 0, and a service whose authentication
  succeeds that once and fails from then on, while the clock has moved on to 100.
\<close>

definition client_haifa :: client where
  "client_haifa =
     init\<lparr>token := PStr ''tok'', city := PStr ''Haifa'', req_id := PStr ''r1'',
          url := PStr ''https://data'', auth_calls := 1, clock_reads := 1\<rparr>"

definition env_refresh_fails :: env where
  "env_refresh_fails =
     \<lparr>auth_resp = scripted [Response 200 (Json haifa)] RequestFailed,
      page_resp = (\<lambda>n. Response 200 (Json (page_json [reading 10] 1))),
      clock = scripted [0] 100\<rparr>"

section \<open>The token\<close>

text \<open>Ints of everyday size are far below the limit of the floats.\<close>

lemma float_limit_large: "1000000 < float_limit"
  by (simp add: float_limit_def)

lemma to_float_small: "\<bar>x\<bar> \<le> 1000000 \<Longrightarrow> to_float x = Inr (Finite x)"
  using float_limit_large by (simp add: to_float_def)

lemma get_token_failed:
  "request_exception (auth_resp e (auth_calls s)) \<Longrightarrow>
   get_token e s = Inr (s\<lparr>auth_calls := Suc (auth_calls s), token := PNone\<rparr>)"
  by (auto simp: request_exception_def get_token_def split: http_outcome.splits body.splits)

text \<open>
  C7. When the authentication exchange fails at the network level, \<open>get_token\<close> returns
  normally, without an exception, and leaves the token \<open>None\<close>.
\<close>

theorem get_token_swallows_network_failure:
  assumes "request_exception (auth_resp e (auth_calls s))"
  shows "\<exists>s'. get_token e s = Inr s' \<and> token s' = PNone"
  using get_token_failed [OF assms] by simp

theorem get_token_swallows_network_failure_witness:
  "request_exception (auth_resp env_down (auth_calls init)) \<and>
   (\<exists>s'. get_token env_down init = Inr s' \<and> token s' = PNone)"
  using get_token_swallows_network_failure [of env_down init]
  by (simp add: env_down_def request_exception_def)

lemmas eval_defs =
  loop_body_def get_page_def validate_token_def get_token_def attempts.simps post_page_def
  try_request_def page_tuple_def MAX_ERROR_def TOKEN_TIMEOUT_def scripted_def reading_def
  page_json_def

text \<open>
  C6, as the code has it. Two calls of \<open>validate_token\<close> with no time passing make at
  most one authentication exchange when the first call leaves a token: the second call
  then finds a token of age zero and does nothing but read the clock.
\<close>

theorem validate_token_twice:
  assumes still: "\<forall>n. clock e n = t"
    and first: "validate_token e s = Inr s1"
    and tok: "token s1 \<noteq> PNone"
  shows "validate_token e s1 = Inr (s1\<lparr>clock_reads := Suc (clock_reads s1)\<rparr>) \<and>
         auth_calls s1 \<le> Suc (auth_calls s)"
proof -
  have fresh: "token_time s1 = t \<or> (s1 = s\<lparr>clock_reads := Suc (clock_reads s)\<rparr> \<and>
      \<not> t - token_time s \<ge> TOKEN_TIMEOUT)"
    using first tok still
    by (auto simp: validate_token_def get_token_def Let_def
        split: if_splits http_outcome.splits body.splits sum.splits)
  have calls: "auth_calls s1 \<le> Suc (auth_calls s)"
    using first
    by (auto simp: validate_token_def get_token_def Let_def
        split: if_splits http_outcome.splits body.splits sum.splits)
  have "\<not> t - token_time s1 \<ge> TOKEN_TIMEOUT"
    using fresh by (auto simp: TOKEN_TIMEOUT_def)
  then have "validate_token e s1 = Inr (s1\<lparr>clock_reads := Suc (clock_reads s1)\<rparr>)"
    using tok still by (simp add: validate_token_def Let_def)
  with calls show ?thesis by simp
qed

theorem validate_token_twice_witness:
  "(\<forall>n. clock (serve haifa []) n = 0) \<and>
   validate_token (serve haifa []) init =
     Inr (init\<lparr>token := PStr ''tok'', city := PStr ''Haifa'', req_id := PStr ''r1'',
              url := PStr ''https://data'', auth_calls := 1, clock_reads := 1\<rparr>) \<and>
   validate_token (serve haifa [])
     (init\<lparr>token := PStr ''tok'', city := PStr ''Haifa'', req_id := PStr ''r1'',
           url := PStr ''https://data'', auth_calls := 1, clock_reads := 1\<rparr>) =
     Inr (init\<lparr>token := PStr ''tok'', city := PStr ''Haifa'', req_id := PStr ''r1'',
              url := PStr ''https://data'', auth_calls := 1, clock_reads := 2\<rparr>)"
proof -
  let ?e = "serve haifa []"
  let ?s1 = "init\<lparr>token := PStr ''tok'', city := PStr ''Haifa'', req_id := PStr ''r1'',
                  url := PStr ''https://data'', auth_calls := 1, clock_reads := 1\<rparr>"
  have still: "\<forall>n. clock ?e n = 0"
    by (simp add: serve_def)
  have first: "validate_token ?e init = Inr ?s1"
    by (simp add: validate_token_def get_token_def serve_def haifa_def auth_json_def init_def)
  have tok: "token ?s1 \<noteq> PNone"
    by simp
  from validate_token_twice [OF still first tok] still first show ?thesis
    by (simp add: init_def)
qed

theorem validate_token_twice_counterexample:
  "validate_token env_down init = Inr (init\<lparr>auth_calls := 1\<rparr>) \<and>
   validate_token env_down (init\<lparr>auth_calls := 1\<rparr>) = Inr (init\<lparr>auth_calls := 2\<rparr>)"
  by (simp add: validate_token_def get_token_def env_down_def init_def)

section \<open>One page\<close>

lemma validate_token_failed:
  assumes "request_exception (auth_resp e (auth_calls s))"
    and "token s = PNone \<or> clock e (clock_reads s) - token_time s \<ge> TOKEN_TIMEOUT"
  shows "\<exists>n. validate_token e s =
           Inr (s\<lparr>auth_calls := Suc (auth_calls s), token := PNone, clock_reads := n\<rparr>)"
proof (cases "token s = PNone")
  case True
  then have "validate_token e s =
      Inr (s\<lparr>auth_calls := Suc (auth_calls s), token := PNone, clock_reads := clock_reads s\<rparr>)"
    using assms(1) by (simp add: validate_token_def get_token_failed)
  then show ?thesis by blast
next
  case False
  then have "validate_token e s =
      Inr (s\<lparr>auth_calls := Suc (auth_calls s), token := PNone,
             clock_reads := Suc (clock_reads s)\<rparr>)"
    using assms by (simp add: validate_token_def get_token_failed Let_def)
  then show ?thesis by blast
qed

text \<open>
  The retry loop changes nothing but the trace: it adds the same request k times, once
  per attempt, and at least once when there is an attempt to make.
\<close>

lemma attempts_trace:
  "\<exists>k. k \<le> Suc m - a \<and> (a \<le> m \<longrightarrow> 1 \<le> k) \<and>
     client_after (attempts e rq m a s) = s\<lparr>page_requests := page_requests s @ replicate k rq\<rparr>"
proof (induction "Suc m - a" arbitrary: a s)
  case 0
  then have "\<not> a \<le> m" by simp
  then have "client_after (attempts e rq m a s) =
      s\<lparr>page_requests := page_requests s @ replicate 0 rq\<rparr>"
    by (subst attempts.simps) (simp add: client_after_def)
  then show ?case
    using \<open>\<not> a \<le> m\<close> by (intro exI [of _ 0]) simp
next
  case (Suc n)
  then have le: "a \<le> m" by simp
  let ?s1 = "s\<lparr>page_requests := page_requests s @ [rq]\<rparr>"
  show ?case
  proof (cases "try_request (post_page e (url s) (length (page_requests s)))")
    case (Parsed data)
    have "client_after (attempts e rq m a s) =
        s\<lparr>page_requests := page_requests s @ replicate 1 rq\<rparr>"
      by (subst attempts.simps)
        (auto simp: le Parsed client_after_def Let_def split: sum.splits)
    then show ?thesis
      using le by (intro exI [of _ 1]) simp
  next
    case (Raised x)
    have "client_after (attempts e rq m a s) =
        s\<lparr>page_requests := page_requests s @ replicate 1 rq\<rparr>"
      by (subst attempts.simps) (simp add: le Raised client_after_def Let_def)
    then show ?thesis
      using le by (intro exI [of _ 1]) simp
  next
    case Caught
    show ?thesis
    proof (cases "a < m")
      case True
      have "n = Suc m - Suc a" using Suc.hyps(2) by simp
      from Suc.hyps(1) [OF this, of ?s1] obtain k where k: "k \<le> Suc m - Suc a"
        "client_after (attempts e rq m (Suc a) ?s1) =
           ?s1\<lparr>page_requests := page_requests ?s1 @ replicate k rq\<rparr>"
        by blast
      from k(2) have "client_after (attempts e rq m a s) =
          s\<lparr>page_requests := page_requests s @ replicate (Suc k) rq\<rparr>"
        by (subst attempts.simps) (simp add: le Caught True Let_def)
      then show ?thesis
        using k(1) True by (intro exI [of _ "Suc k"]) simp
    next
      case False
      have "client_after (attempts e rq m a s) =
          s\<lparr>page_requests := page_requests s @ replicate 1 rq\<rparr>"
        by (subst attempts.simps) (simp add: le Caught False client_after_def Let_def)
      then show ?thesis
        using le by (intro exI [of _ 1]) simp
    qed
  qed
qed

text \<open>
  C9. When the authentication exchange fails at the network level, \<open>get_token\<close> returns
  the object with the token \<open>None\<close> and nothing else of it changed: the time of issue,
  the city, the request identifier, the data URL and the items are those of before (the
  count of exchanges belongs to the trace). A page fetch whose token check runs into such
  a failed refresh, the token being absent or expired, therefore makes its attempts, at
  least one and at most \<open>max_retries\<close> of them, with requests to the previous URL that
  carry the previous request identifier, and no token; and it leaves these fields as they
  were.
\<close>

theorem failed_refresh_frame:
  assumes fail: "request_exception (auth_resp e (auth_calls s))"
  shows "get_token e s = Inr (s\<lparr>auth_calls := Suc (auth_calls s), token := PNone\<rparr>) \<and>
    ((token s = PNone \<or> clock e (clock_reads s) - token_time s \<ge> TOKEN_TIMEOUT) \<and> 1 \<le> m \<longrightarrow>
     (\<exists>k. 1 \<le> k \<and> k \<le> m \<and>
        page_requests (client_after (get_page e p m s)) =
          page_requests s @ replicate k (PageRequest (url s) PNone (req_id s) p) \<and>
        url (client_after (get_page e p m s)) = url s \<and>
        req_id (client_after (get_page e p m s)) = req_id s \<and>
        city (client_after (get_page e p m s)) = city s \<and>
        token_time (client_after (get_page e p m s)) = token_time s))"
proof (intro conjI impI)
  show "get_token e s = Inr (s\<lparr>auth_calls := Suc (auth_calls s), token := PNone\<rparr>)"
    using get_token_failed [OF fail] .
next
  assume a: "(token s = PNone \<or> clock e (clock_reads s) - token_time s \<ge> TOKEN_TIMEOUT) \<and> 1 \<le> m"
  let ?s0 = "s\<lparr>get_page_calls := Suc (get_page_calls s)\<rparr>"
  have "request_exception (auth_resp e (auth_calls ?s0))"
    using fail by simp
  moreover have "token ?s0 = PNone \<or>
      clock e (clock_reads ?s0) - token_time ?s0 \<ge> TOKEN_TIMEOUT"
    using a by simp
  ultimately obtain n where v: "validate_token e ?s0 =
      Inr (?s0\<lparr>auth_calls := Suc (auth_calls ?s0), token := PNone, clock_reads := n\<rparr>)"
    using validate_token_failed by blast
  let ?s1 = "?s0\<lparr>auth_calls := Suc (auth_calls ?s0), token := PNone, clock_reads := n\<rparr>"
  let ?rq = "PageRequest (url s) PNone (req_id s) p"
  obtain k where k: "k \<le> Suc m - 1" "1 \<le> m \<longrightarrow> 1 \<le> k"
    "client_after (attempts e ?rq m 1 ?s1) =
      ?s1\<lparr>page_requests := page_requests ?s1 @ replicate k ?rq\<rparr>"
    using attempts_trace [of m 1 e ?rq ?s1] by blast
  have after: "client_after (get_page e p m s) =
      ?s1\<lparr>page_requests := page_requests s @ replicate k ?rq\<rparr>"
    using k(3) by (simp add: get_page_def v)
  have "1 \<le> k \<and> k \<le> m"
    using k(1,2) a by simp
  then show "\<exists>k. 1 \<le> k \<and> k \<le> m \<and>
        page_requests (client_after (get_page e p m s)) =
          page_requests s @ replicate k (PageRequest (url s) PNone (req_id s) p) \<and>
        url (client_after (get_page e p m s)) = url s \<and>
        req_id (client_after (get_page e p m s)) = req_id s \<and>
        city (client_after (get_page e p m s)) = city s \<and>
        token_time (client_after (get_page e p m s)) = token_time s"
    using after by (intro exI [of _ k]) simp
qed

theorem failed_refresh_frame_witness:
  "get_token env_refresh_fails init = Inr client_haifa \<and>
   request_exception (auth_resp env_refresh_fails (auth_calls client_haifa)) \<and>
   clock env_refresh_fails (clock_reads client_haifa) - token_time client_haifa \<ge> TOKEN_TIMEOUT \<and>
   get_token env_refresh_fails client_haifa =
     Inr (client_haifa\<lparr>auth_calls := 2, token := PNone\<rparr>) \<and>
   (\<exists>k. 1 \<le> k \<and> k \<le> 3 \<and>
      page_requests (client_after (get_page env_refresh_fails 1 3 client_haifa)) =
        replicate k (PageRequest (PStr ''https://data'') PNone (PStr ''r1'') 1) \<and>
      url (client_after (get_page env_refresh_fails 1 3 client_haifa)) = PStr ''https://data'' \<and>
      req_id (client_after (get_page env_refresh_fails 1 3 client_haifa)) = PStr ''r1'' \<and>
      city (client_after (get_page env_refresh_fails 1 3 client_haifa)) = PStr ''Haifa'' \<and>
      token_time (client_after (get_page env_refresh_fails 1 3 client_haifa)) = 0)"
proof -
  have first: "get_token env_refresh_fails init = Inr client_haifa"
    by (simp add: get_token_def env_refresh_fails_def client_haifa_def scripted_def haifa_def
        auth_json_def init_def)
  have fail: "request_exception (auth_resp env_refresh_fails (auth_calls client_haifa))"
    by (simp add: env_refresh_fails_def client_haifa_def scripted_def request_exception_def
        init_def)
  have due: "clock env_refresh_fails (clock_reads client_haifa) - token_time client_haifa
      \<ge> TOKEN_TIMEOUT"
    by (simp add: env_refresh_fails_def client_haifa_def scripted_def TOKEN_TIMEOUT_def init_def)
  from failed_refresh_frame [OF fail, of 3 1] first fail due show ?thesis
    by (simp add: client_haifa_def init_def)
qed

lemma get_token_frame:
  "all_items (state_after (get_token e s)) = all_items s \<and>
   get_page_calls (state_after (get_token e s)) = get_page_calls s \<and>
   page_requests (state_after (get_token e s)) = page_requests s"
  by (auto simp: get_token_def state_after_def Let_def
      split: http_outcome.splits body.splits sum.splits)

lemma validate_token_frame:
  "all_items (state_after (validate_token e s)) = all_items s \<and>
   get_page_calls (state_after (validate_token e s)) = get_page_calls s \<and>
   page_requests (state_after (validate_token e s)) = page_requests s"
  by (simp add: validate_token_def Let_def get_token_frame) (simp add: state_after_def)

lemma attempts_all_caught:
  assumes "page_fails e s"
  shows "attempts e rq 3 (Suc 0) s =
           Inr (Some (PList [], PInt 1), s\<lparr>page_requests := page_requests s @ [rq, rq, rq]\<rparr>)"
  using assms unfolding page_fails_def
  by (simp add: attempts.simps Let_def)

text \<open>
  C4. A page whose three attempts all fail adds no item, raises the error counter by
  exactly one and moves the loop on to the next page number: the pass through the loop
  body ends with the page number one higher, so that the failed page is not asked for
  again.
\<close>

theorem failed_page_advances:
  assumes tok: "validate_token e ((client r)\<lparr>get_page_calls := Suc (get_page_calls (client r))\<rparr>)
                  = Inr s1"
    and fails: "page_fails e s1"
  shows "\<exists>r'. loop_body e r = Inr r' \<and>
           all_items (client r') = all_items (client r) \<and>
           error_counter r' = error_counter r + 1 \<and>
           current_page r' = current_page r + 1"
proof -
  let ?rq = "PageRequest (url s1) (token s1) (req_id s1) (current_page r)"
  let ?s2 = "s1\<lparr>page_requests := page_requests s1 @ [?rq, ?rq, ?rq]\<rparr>"
  have "get_page e (current_page r) 3 (client r) = Inr (Some (PList [], PInt 1), ?s2)"
    by (simp add: get_page_def tok attempts_all_caught [OF fails])
  then have body: "loop_body e r =
      Inr (r\<lparr>client := ?s2, total_pages := PInt 1, error_counter := error_counter r + 1,
             current_page := current_page r + 1\<rparr>)"
    by (simp add: loop_body_def)
  have "all_items s1 = all_items (client r)"
    using validate_token_frame
      [of e "(client r)\<lparr>get_page_calls := Suc (get_page_calls (client r))\<rparr>"] tok
    by (simp add: state_after_def)
  with body show ?thesis by simp
qed

theorem failed_page_advances_witness:
  "validate_token env_down
     ((client \<lparr>client = init, current_page = 1, total_pages = PInt 1, error_counter = 0\<rparr>)
        \<lparr>get_page_calls :=
           Suc (get_page_calls
             (client \<lparr>client = init, current_page = 1, total_pages = PInt 1,
                      error_counter = 0\<rparr>))\<rparr>)
     = Inr (init\<lparr>auth_calls := 1, get_page_calls := 1\<rparr>) \<and>
   page_fails env_down (init\<lparr>auth_calls := 1, get_page_calls := 1\<rparr>) \<and>
   (\<exists>r'. loop_body env_down
            \<lparr>client = init, current_page = 1, total_pages = PInt 1, error_counter = 0\<rparr>
          = Inr r' \<and>
      all_items (client r') = [] \<and> error_counter r' = 1 \<and> current_page r' = 2)"
proof -
  let ?r = "\<lparr>client = init, current_page = 1, total_pages = PInt 1, error_counter = 0\<rparr>"
  let ?s1 = "init\<lparr>auth_calls := 1, get_page_calls := 1\<rparr>"
  have tok: "validate_token env_down
      ((client ?r)\<lparr>get_page_calls := Suc (get_page_calls (client ?r))\<rparr>) = Inr ?s1"
    by (simp add: validate_token_def get_token_def env_down_def init_def)
  have fails: "page_fails env_down ?s1"
    by (simp add: page_fails_def post_page_def try_request_def env_down_def init_def)
  from failed_page_advances [OF tok fails] tok fails show ?thesis
    by (simp add: init_def)
qed

section \<open>Whole runs\<close>

lemma env_down_run:
  "main env_down =
     Some (Inr (NoData PNone,
       \<lparr>client = init\<lparr>auth_calls := 2,
           page_requests := [PageRequest PNone PNone PNone 1, PageRequest PNone PNone PNone 1,
                             PageRequest PNone PNone PNone 1],
           get_page_calls := 1\<rparr>,
        current_page = 2, total_pages = PInt 1, error_counter = 1\<rparr>))"
  apply (simp add: main_def run_def init_def env_down_def get_token_def)
  apply (subst pagination.simps)
  apply (simp add: eval_defs)
  apply (subst pagination.simps)
  apply (simp add: aggregate_def)
  done

text \<open>
  C2, as the code has it. When every authentication exchange fails at the network
  level, the run makes two of them (at its start and before page 1), the three attempts
  for page 1 fail for lack of a URL, the error counter ends at 1 and the loop is over,
  because page 2 is beyond the one page the loop knows of; the report has no data and
  the city is \<open>None\<close>.
\<close>

theorem auth_down_run:
  assumes "\<forall>n. request_exception (auth_resp e n)"
  shows "main e =
     Some (Inr (NoData PNone,
       \<lparr>client = init\<lparr>auth_calls := 2,
           page_requests := [PageRequest PNone PNone PNone 1, PageRequest PNone PNone PNone 1,
                             PageRequest PNone PNone PNone 1],
           get_page_calls := 1\<rparr>,
        current_page = 2, total_pages = PInt 1, error_counter = 1\<rparr>))"
proof -
  have g: "get_token e s = Inr (s\<lparr>auth_calls := Suc (auth_calls s), token := PNone\<rparr>)" for s
    using assms get_token_failed by blast
  show ?thesis
    apply (simp add: main_def run_def g)
    apply (subst pagination.simps)
    apply (simp add: loop_body_def get_page_def validate_token_def g attempts.simps
        post_page_def try_request_def MAX_ERROR_def init_def)
    apply (subst pagination.simps)
    apply (simp add: aggregate_def init_def)
    done
qed

theorem auth_down_run_witness:
  "(\<forall>n. request_exception (auth_resp env_down n)) \<and>
   outcome (main env_down) = Some (Inr (NoData PNone)) \<and>
   map_option error_counter (final_state (main env_down)) = Some 1"
proof -
  have a: "\<forall>n. request_exception (auth_resp env_down n)"
    by (simp add: env_down_def request_exception_def)
  from auth_down_run [OF a] a show ?thesis
    by (simp add: outcome_def final_state_def)
qed

theorem auth_down_counterexample:
  "map_option error_counter (final_state (main env_down)) = Some 1 \<and>
   map_option error_counter (final_state (main env_down)) \<noteq> Some MAX_ERROR"
  by (simp add: env_down_run final_state_def MAX_ERROR_def)


lemma env_round_trip_run:
  "main env_round_trip =
     Some (Inr (Report (PStr ''Haifa'') (Finite 10),
       \<lparr>client = \<lparr>token = PStr ''tok'', token_time = 0, city = PStr ''Haifa'',
           req_id = PStr ''r1'', url = PStr ''https://data'', all_items = [reading 10],
           auth_calls = 1, clock_reads = 2,
           page_requests = [PageRequest (PStr ''https://data'') (PStr ''tok'') (PStr ''r1'') 1],
           get_page_calls = 1\<rparr>,
        current_page = 2, total_pages = PInt 1, error_counter = 0\<rparr>))"
  apply (simp add: main_def run_def init_def env_round_trip_def serve_def haifa_def
      auth_json_def get_token_def)
  apply (subst pagination.simps)
  apply (simp add: eval_defs)
  apply (subst pagination.simps)
  apply (simp add: aggregate_def reading_def py_truediv_def to_float_small)
  done

text \<open>
  C5 fails on the sequence as the specification gives it: the first page carries no
  \<open>total_pages\<close>, the default 1 ends the loop after it, the second page is never asked
  for and the average is 10.
\<close>

theorem round_trip_counterexample:
  "outcome (main env_round_trip) = Some (Inr (Report (PStr ''Haifa'') (Finite 10))) \<and>
   outcome (main env_round_trip) \<noteq> Some (Inr (Report (PStr ''Haifa'') (Finite 15))) \<and>
   map_option (get_page_calls \<circ> client) (final_state (main env_round_trip)) = Some 1"
  by (simp add: env_round_trip_run outcome_def final_state_def)

text \<open>
  C5, as the code has it. When the first page reports two pages as well, both pages are
  fetched, the average of 10 and 20 is 15 and the report names the city of the
  authentication answer.
\<close>

theorem round_trip_two_pages:
  "outcome (main (serve (auth_json (PStr tk) c r (PStr u))
      [Response 200 (Json (page_json [reading 10] 2)),
       Response 200 (Json (page_json [reading 20] 2))]))
   = Some (Inr (Report c (Finite 15)))"
  apply (simp add: outcome_def main_def run_def init_def serve_def auth_json_def get_token_def)
  apply (subst pagination.simps)
  apply (simp add: eval_defs)
  apply (subst pagination.simps)
  apply (simp add: eval_defs)
  apply (subst pagination.simps)
  apply (simp add: aggregate_def reading_def py_truediv_def to_float_small)
  done

text \<open>
  C1 against the code: three pages, the second one failing on all its attempts. The
  \<open>1\<close> that \<open>get_page\<close> returns for the failed page replaces the 3 that page 1 had
  reported, and the loop ends with page 3 never asked for, after one error.
\<close>

theorem failed_page_resets_total_pages:
  "main env_page2_fails =
     Some (Inr (Report (PStr ''Haifa'') (Finite 10),
       \<lparr>client = \<lparr>token = PStr ''tok'', token_time = 0, city = PStr ''Haifa'',
           req_id = PStr ''r1'', url = PStr ''https://data'', all_items = [reading 10],
           auth_calls = 1, clock_reads = 3,
           page_requests =
             [PageRequest (PStr ''https://data'') (PStr ''tok'') (PStr ''r1'') 1,
              PageRequest (PStr ''https://data'') (PStr ''tok'') (PStr ''r1'') 2,
              PageRequest (PStr ''https://data'') (PStr ''tok'') (PStr ''r1'') 2,
              PageRequest (PStr ''https://data'') (PStr ''tok'') (PStr ''r1'') 2],
           get_page_calls = 2\<rparr>,
        current_page = 3, total_pages = PInt 1, error_counter = 1\<rparr>))"
  apply (simp add: main_def run_def init_def env_page2_fails_def serve_def haifa_def
      auth_json_def get_token_def)
  apply (subst pagination.simps)
  apply (simp add: eval_defs)
  apply (subst pagination.simps)
  apply (simp add: eval_defs)
  apply (subst pagination.simps)
  apply (simp add: aggregate_def reading_def py_truediv_def to_float_small)
  done

section \<open>The loop\<close>

lemma post_page_parsed:
  "try_request (post_page e u n) = Parsed d \<Longrightarrow> try_request (page_resp e n) = Parsed d"
  by (cases u) (simp_all add: post_page_def try_request_def)

lemma post_page_raised:
  "try_request (post_page e u n) = Raised x \<Longrightarrow> try_request (page_resp e n) = Raised x"
  by (cases u) (simp_all add: post_page_def try_request_def)

text \<open>Where the result of the retry loop comes from.\<close>

lemma attempts_source:
  "case attempts e rq m a s of
     Inl (x, c) \<Rightarrow>
       (\<exists>n. try_request (page_resp e n) = Raised x) \<or>
       (\<exists>n d. try_request (page_resp e n) = Parsed d \<and> page_tuple d = Inl x)
   | Inr (None, c) \<Rightarrow> \<not> a \<le> m
   | Inr (Some ret, c) \<Rightarrow>
       ret = (PList [], PInt 1) \<or>
       (\<exists>n d. try_request (page_resp e n) = Parsed d \<and> page_tuple d = Inr ret)"
proof (induction "Suc m - a" arbitrary: a s)
  case 0
  then have "\<not> a \<le> m" by simp
  then show ?case by (simp add: attempts.simps [of e rq m a s])
next
  case (Suc k)
  then have le: "a \<le> m" by simp
  let ?s1 = "s\<lparr>page_requests := page_requests s @ [rq]\<rparr>"
  show ?case
  proof (cases "try_request (post_page e (url s) (length (page_requests s)))")
    case (Parsed d)
    then have src: "try_request (page_resp e (length (page_requests s))) = Parsed d"
      by (rule post_page_parsed)
    have "attempts e rq m a s =
        (case page_tuple d of Inl x \<Rightarrow> Inl (x, ?s1) | Inr ret \<Rightarrow> Inr (Some ret, ?s1))"
      by (simp add: attempts.simps [of e rq m a s] le Parsed Let_def)
    with src show ?thesis
      by (cases "page_tuple d") auto
  next
    case (Raised x)
    then have src: "try_request (page_resp e (length (page_requests s))) = Raised x"
      by (rule post_page_raised)
    have "attempts e rq m a s = Inl (x, ?s1)"
      by (simp add: attempts.simps [of e rq m a s] le Raised Let_def)
    with src show ?thesis
      by auto
  next
    case Caught
    show ?thesis
    proof (cases "a < m")
      case True
      have "k = Suc m - Suc a" using Suc.hyps(2) by simp
      note IH = Suc.hyps(1) [OF this, of ?s1]
      have "attempts e rq m a s = attempts e rq m (Suc a) ?s1"
        by (simp add: attempts.simps [of e rq m a s] le Caught True Let_def)
      with IH True show ?thesis
        by (auto split: sum.splits option.splits prod.splits)
    next
      case False
      then show ?thesis
        by (simp add: attempts.simps [of e rq m a s] le Caught Let_def)
    qed
  qed
qed

lemma get_page_frame:
  "get_page_calls (client_after (get_page e p m s)) = Suc (get_page_calls s) \<and>
   all_items (client_after (get_page e p m s)) = all_items s"
proof (cases "validate_token e (s\<lparr>get_page_calls := Suc (get_page_calls s)\<rparr>)")
  case (Inl xc)
  then show ?thesis
    using validate_token_frame [of e "s\<lparr>get_page_calls := Suc (get_page_calls s)\<rparr>"]
    by (cases xc) (simp add: get_page_def client_after_def state_after_def)
next
  case (Inr s1)
  obtain k where "client_after
      (attempts e (PageRequest (url s1) (token s1) (req_id s1) p) m 1 s1) =
      s1\<lparr>page_requests := page_requests s1 @
        replicate k (PageRequest (url s1) (token s1) (req_id s1) p)\<rparr>"
    using attempts_trace by blast
  then show ?thesis
    using validate_token_frame [of e "s\<lparr>get_page_calls := Suc (get_page_calls s)\<rparr>"] Inr
    by (simp add: get_page_def state_after_def)
qed

lemma get_page_source:
  "case get_page e p 3 s of
     Inl (x, c) \<Rightarrow> True
   | Inr (None, c) \<Rightarrow> False
   | Inr (Some ret, c) \<Rightarrow>
       ret = (PList [], PInt 1) \<or>
       (\<exists>n d. try_request (page_resp e n) = Parsed d \<and> page_tuple d = Inr ret)"
proof (cases "validate_token e (s\<lparr>get_page_calls := Suc (get_page_calls s)\<rparr>)")
  case (Inl xc)
  then show ?thesis
    by (cases xc) (simp add: get_page_def)
next
  case (Inr s1)
  then show ?thesis
    using attempts_source [where e = e and m = 3 and a = "Suc 0" and s = s1
        and rq = "PageRequest (url s1) (token s1) (req_id s1) p"]
    by (auto simp: get_page_def split: sum.splits option.splits prod.splits)
qed

text \<open>One pass through the loop body asks for one page and moves on by one page.\<close>

lemma loop_body_step:
  assumes bound: "\<forall>n. total_pages_at_most B (page_resp e n)" and one: "1 \<le> B"
  shows "case loop_body e r of
           Inl (x, r') \<Rightarrow> get_page_calls (client r') = Suc (get_page_calls (client r))
         | Inr r1 \<Rightarrow>
             get_page_calls (client r1) = Suc (get_page_calls (client r)) \<and>
             current_page r1 = current_page r + 1 \<and> at_most B (total_pages r1)"
proof -
  have frame: "get_page_calls (client_after (get_page e (current_page r) 3 (client r))) =
      Suc (get_page_calls (client r))"
    using get_page_frame by blast
  have src: "case get_page e (current_page r) 3 (client r) of
       Inl (x, c) \<Rightarrow> True
     | Inr (None, c) \<Rightarrow> False
     | Inr (Some ret, c) \<Rightarrow>
         ret = (PList [], PInt 1) \<or>
         (\<exists>n d. try_request (page_resp e n) = Parsed d \<and> page_tuple d = Inr ret)"
    by (rule get_page_source)
  have tp: "at_most B (snd ret)"
    if "try_request (page_resp e n) = Parsed d" "page_tuple d = Inr ret" for n d ret
    using bound [rule_format, of n] that by (simp add: total_pages_at_most_def)
  have sentinel: "at_most B (PInt 1)"
    using one by simp
  show ?thesis
  proof (cases "get_page e (current_page r) 3 (client r)")
    case (Inl xc)
    then show ?thesis
      using frame by (cases xc) (simp add: loop_body_def client_after_def)
  next
    case (Inr rc)
    obtain ret c where rc: "rc = (ret, c)" by (cases rc)
    have g: "get_page_calls c = Suc (get_page_calls (client r))"
      using frame Inr rc by (simp add: client_after_def)
    show ?thesis
    proof (cases ret)
      case None
      then show ?thesis
        using Inr rc g by (simp add: loop_body_def)
    next
      case (Some it)
      obtain items tp where it: "it = (items, tp)" by (cases it)
      have "(items, tp) = (PList [], PInt 1) \<or>
          (\<exists>n d. try_request (page_resp e n) = Parsed d \<and> page_tuple d = Inr (items, tp))"
        using src Inr rc Some it by simp
      then have "at_most B tp"
        using tp sentinel by fastforce
      then show ?thesis
        using Inr rc Some it g by (auto simp: loop_body_def Let_def split: sum.splits)
    qed
  qed
qed

lemma get_token_returns:
  "auth_ok (auth_resp e (auth_calls s)) \<Longrightarrow> \<exists>s'. get_token e s = Inr s'"
  by (auto simp: auth_ok_def has_key_def get_token_def Let_def
      split: http_outcome.splits body.splits sum.splits)

lemma validate_token_returns:
  assumes "\<forall>n. auth_ok (auth_resp e n)"
  shows "\<exists>s'. validate_token e s = Inr s'"
proof -
  have g: "\<exists>s'. get_token e c = Inr s'" for c
    using assms get_token_returns by blast
  show ?thesis
    using g by (simp add: validate_token_def Let_def)
qed

lemma is_list_PList: "is_list v \<Longrightarrow> \<exists>xs. v = PList xs"
  by (cases v) simp_all

text \<open>Under answers of the documented shape the loop body raises nothing.\<close>

lemma loop_body_returns:
  assumes wf: "well_formed B e"
  shows "\<exists>r1. loop_body e r = Inr r1"
proof -
  have auth: "\<forall>n. auth_ok (auth_resp e n)" and pages: "\<forall>n. page_ok B (page_resp e n)"
    using wf by (simp_all add: well_formed_def)
  let ?s0 = "(client r)\<lparr>get_page_calls := Suc (get_page_calls (client r))\<rparr>"
  obtain s1 where v: "validate_token e ?s0 = Inr s1"
    using validate_token_returns [OF auth] by blast
  let ?rq = "PageRequest (url s1) (token s1) (req_id s1) (current_page r)"
  have gp: "get_page e (current_page r) 3 (client r) = attempts e ?rq 3 (Suc 0) s1"
    by (simp add: get_page_def v)
  have ok: "\<exists>items tp. page_tuple d = Inr (PList items, tp)"
    if "try_request (page_resp e n) = Parsed d" for n d
  proof (cases "page_tuple d")
    case (Inl x)
    then show ?thesis
      using pages [rule_format, of n] that by (simp add: page_ok_def)
  next
    case (Inr ret)
    then have "is_list (fst ret)"
      using pages [rule_format, of n] that by (simp add: page_ok_def)
    then obtain xs where "fst ret = PList xs"
      using is_list_PList by blast
    then show ?thesis
      using Inr by (cases ret) simp
  qed
  have quiet: "try_request (page_resp e n) \<noteq> Raised x" for n x
    using pages [rule_format, of n] by (auto simp: page_ok_def)
  have src: "case attempts e ?rq 3 (Suc 0) s1 of
       Inl (x, c) \<Rightarrow>
         (\<exists>n. try_request (page_resp e n) = Raised x) \<or>
         (\<exists>n d. try_request (page_resp e n) = Parsed d \<and> page_tuple d = Inl x)
     | Inr (None, c) \<Rightarrow> \<not> Suc 0 \<le> 3
     | Inr (Some ret, c) \<Rightarrow>
         ret = (PList [], PInt 1) \<or>
         (\<exists>n d. try_request (page_resp e n) = Parsed d \<and> page_tuple d = Inr ret)"
    by (rule attempts_source)
  show ?thesis
  proof (cases "attempts e ?rq 3 (Suc 0) s1")
    case (Inl xc)
    obtain x c where "xc = (x, c)" by (cases xc)
    with src Inl have "(\<exists>n. try_request (page_resp e n) = Raised x) \<or>
        (\<exists>n d. try_request (page_resp e n) = Parsed d \<and> page_tuple d = Inl x)"
      by simp
    with ok quiet show ?thesis by fastforce
  next
    case (Inr rc)
    obtain ret c where rc: "rc = (ret, c)" by (cases rc)
    show ?thesis
    proof (cases ret)
      case None
      with src Inr rc show ?thesis by simp
    next
      case (Some it)
      with src Inr rc have "it = (PList [], PInt 1) \<or>
          (\<exists>n d. try_request (page_resp e n) = Parsed d \<and> page_tuple d = Inr it)"
        by simp
      then obtain items tp where "it = (PList items, tp)"
        using ok by fastforce
      then show ?thesis
        using gp Inr rc Some by (simp add: loop_body_def Let_def)
    qed
  qed
qed


text \<open>
  The loop ends while the page counts stay bounded: the current page goes up by one on
  every pass and the count it is compared with never exceeds \<open>B\<close>.
\<close>

lemma at_most_le:
  assumes "at_most B v"
  shows "\<exists>go. py_int_le n v = Inr go \<and> (go \<longrightarrow> n \<le> int B)"
proof (cases v)
  case (PFloat f)
  show ?thesis
  proof (cases f)
    case (Finite t)
    have "n \<le> int B" if "real_of_int n \<le> t"
    proof -
      from that assms PFloat Finite have "real_of_int n \<le> real_of_int (int B)"
        by simp
      then show ?thesis
        by (simp only: of_int_le_iff)
    qed
    then show ?thesis
      using PFloat Finite by simp
  qed (use assms PFloat in auto)
qed (use assms in simp_all)

lemma pagination_terminates:
  assumes bound: "\<forall>n. total_pages_at_most B (page_resp e n)" and one: "1 \<le> B"
  shows "at_most B (total_pages r) \<Longrightarrow>
    \<exists>res. pagination e r = Some res \<and>
      get_page_calls (client (loop_end res)) \<le>
        get_page_calls (client r) + nat (int B + 1 - current_page r) \<and>
      (well_formed B e \<longrightarrow> (\<exists>r'. res = Inr r'))"
proof (induction "nat (int B + 1 - current_page r)" arbitrary: r)
  case 0
  obtain go where t: "py_int_le (current_page r) (total_pages r) = Inr go"
    and go: "go \<longrightarrow> current_page r \<le> int B"
    using at_most_le [OF "0.prems"] by blast
  have "int B < current_page r"
    using "0.hyps" by linarith
  then have "\<not> go"
    using go by auto
  then have "pagination e r = Some (Inr r)"
    by (simp add: pagination.simps [of e r] t)
  then show ?case
    by (simp add: loop_end_def)
next
  case (Suc k)
  obtain go where t: "py_int_le (current_page r) (total_pages r) = Inr go"
    using at_most_le [OF Suc.prems] by blast
  show ?case
  proof (cases go)
    case False
    then have "pagination e r = Some (Inr r)"
      by (simp add: pagination.simps [of e r] t)
    then show ?thesis
      by (simp add: loop_end_def)
  next
    case True
    note step = loop_body_step [OF bound one, of r]
    show ?thesis
    proof (cases "loop_body e r")
      case (Inl xr)
      obtain x r' where xr: "xr = (x, r')" by (cases xr)
      have "pagination e r = Some (Inl (x, r'))"
        by (simp add: pagination.simps [of e r] t True Inl xr)
      moreover have "get_page_calls (client r') = Suc (get_page_calls (client r))"
        using step Inl xr by simp
      moreover have "\<not> well_formed B e"
        using loop_body_returns [of B e r] Inl by auto
      ultimately show ?thesis
        using Suc.hyps(2) by (simp add: loop_end_def)
    next
      case (Inr r1)
      have f: "get_page_calls (client r1) = Suc (get_page_calls (client r))"
        "current_page r1 = current_page r + 1" "at_most B (total_pages r1)"
        using step Inr by simp_all
      show ?thesis
      proof (cases "MAX_ERROR \<le> error_counter r1")
        case True
        have "pagination e r = Some (Inr r1)"
          using True by (simp add: pagination.simps [of e r] t \<open>go\<close> Inr)
        then show ?thesis
          using f(1) Suc.hyps(2) by (simp add: loop_end_def)
      next
        case False
        have eq: "pagination e r = pagination e r1"
          using False by (simp add: pagination.simps [of e r] t \<open>go\<close> Inr)
        have k: "k = nat (int B + 1 - current_page r1)"
          using Suc.hyps(2) f(2) by linarith
        from Suc.hyps(1) [OF k f(3)] obtain res where res: "pagination e r1 = Some res"
          "get_page_calls (client (loop_end res)) \<le>
             get_page_calls (client r1) + nat (int B + 1 - current_page r1)"
          "well_formed B e \<longrightarrow> (\<exists>r'. res = Inr r')"
          by blast
        have "get_page_calls (client (loop_end res)) \<le>
            get_page_calls (client r) + nat (int B + 1 - current_page r)"
          using res(2) f(1) k Suc.hyps(2) by linarith
        then show ?thesis
          using eq res(1) res(3) by simp
      qed
    qed
  qed
qed

lemma final_state_aggregate: "final_state (Some (aggregate r)) = Some r"
  by (simp add: final_state_def aggregate_def split: sum.splits)

lemma scripted_all: "list_all P xs \<Longrightarrow> P d \<Longrightarrow> P (scripted xs d n)"
  by (simp add: scripted_def list_all_length)

text \<open>
  Claim C10. Let \<open>B\<close> be a bound, at least 1, on every page count the service reports
  (on the second component of every pair \<open>get_page\<close> can return from an answer; the
  pair \<open>([], 1)\<close> of a failed page is within any such bound). Then \<open>run\<close> terminates,
  with its report or with an exception, and has called \<open>get_page\<close> at most \<open>B\<close> times:
  every pass of the loop adds one to \<open>current_page\<close>, and \<open>total_pages\<close> never exceeds
  \<open>B\<close>.
\<close>

theorem pagination_bounded:
  assumes "1 \<le> B" and "\<forall>n. total_pages_at_most B (page_resp e n)"
  shows "\<exists>r. final_state (main e) = Some r \<and> get_page_calls (client r) \<le> B"
proof (cases "get_token e init")
  case (Inl xc)
  obtain x c where xc: "xc = (x, c)" by (cases xc)
  have "get_page_calls c = 0"
    using get_token_frame [of e init] Inl xc by (simp add: state_after_def init_def)
  then show ?thesis
    using Inl xc by (simp add: main_def run_def final_state_def Let_def)
next
  case (Inr c)
  note tok = Inr
  let ?r0 = "\<lparr>client = c, current_page = 1, total_pages = PInt 1, error_counter = 0\<rparr>"
  have c0: "get_page_calls c = 0"
    using get_token_frame [of e init] tok by (simp add: state_after_def init_def)
  have "at_most B (total_pages ?r0)"
    using assms(1) by simp
  from pagination_terminates [OF assms(2) assms(1) this]
  obtain res where res: "pagination e ?r0 = Some res"
    "get_page_calls (client (loop_end res)) \<le>
       get_page_calls (client ?r0) + nat (int B + 1 - current_page ?r0)"
    by blast
  have le: "get_page_calls (client (loop_end res)) \<le> B"
    using res(2) c0 by simp
  show ?thesis
  proof (cases res)
    case (Inl xr)
    then show ?thesis
      using tok res(1) le
      by (cases xr) (simp add: main_def run_def final_state_def loop_end_def Let_def)
  next
    case (Inr r)
    then show ?thesis
      using tok res(1) le final_state_aggregate [of r]
      by (simp add: main_def run_def loop_end_def Let_def)
  qed
qed

theorem pagination_bounded_witness:
  "(1::nat) \<le> 3 \<and> (\<forall>n. total_pages_at_most 3 (page_resp env_page2_fails n)) \<and>
   (\<exists>r. final_state (main env_page2_fails) = Some r \<and> get_page_calls (client r) \<le> 3)"
proof -
  have h: "total_pages_at_most 3 (page_resp env_page2_fails n)" for n
    unfolding env_page2_fails_def serve_def
    apply simp
    apply (rule scripted_all [where P = "total_pages_at_most 3"])
     apply (simp_all add: total_pages_at_most_def try_request_def page_tuple_def page_json_def)
    done
  show ?thesis
    using pagination_bounded [of 3 env_page2_fails] h by simp
qed














section \<open>A service that answers every request\<close>













end
